theory Spec2Isabelle
  imports Main "HOL-Library.Word"
begin

unbundle bit_operations_syntax

section \<open>Library routines the package calls\<close>

text \<open>
  The package \<^verbatim>\<open>blockchain\<close> calls \<^verbatim>\<open>crypto/sha256\<close>, \<^verbatim>\<open>fmt.Sprintf("%x", ...)\<close>,
  \<^verbatim>\<open>strconv.Itoa\<close>, \<^verbatim>\<open>strings.HasPrefix\<close> and \<^verbatim>\<open>strings.Repeat\<close>. They are written out
  here so that every definition below computes. A Go string is a sequence of bytes, and so
  is a HOL \<^typ>\<open>string\<close>.
\<close>

type_synonym byte = "8 word"
type_synonym u32 = "32 word"

subsection \<open>SHA-256\<close>

text \<open>The round constants \<^verbatim>\<open>_K\<close>, eight to a row.\<close>

definition K256 :: "u32 list" where
  "K256 = concat
    [[0x428a2f98, 0x71374491, 0xb5c0fbcf, 0xe9b5dba5, 0x3956c25b, 0x59f111f1, 0x923f82a4, 0xab1c5ed5],
     [0xd807aa98, 0x12835b01, 0x243185be, 0x550c7dc3, 0x72be5d74, 0x80deb1fe, 0x9bdc06a7, 0xc19bf174],
     [0xe49b69c1, 0xefbe4786, 0x0fc19dc6, 0x240ca1cc, 0x2de92c6f, 0x4a7484aa, 0x5cb0a9dc, 0x76f988da],
     [0x983e5152, 0xa831c66d, 0xb00327c8, 0xbf597fc7, 0xc6e00bf3, 0xd5a79147, 0x06ca6351, 0x14292967],
     [0x27b70a85, 0x2e1b2138, 0x4d2c6dfc, 0x53380d13, 0x650a7354, 0x766a0abb, 0x81c2c92e, 0x92722c85],
     [0xa2bfe8a1, 0xa81a664b, 0xc24b8b70, 0xc76c51a3, 0xd192e819, 0xd6990624, 0xf40e3585, 0x106aa070],
     [0x19a4c116, 0x1e376c08, 0x2748774c, 0x34b0bcb5, 0x391c0cb3, 0x4ed8aa4a, 0x5b9cca4f, 0x682e6ff3],
     [0x748f82ee, 0x78a5636f, 0x84c87814, 0x8cc70208, 0x90befffa, 0xa4506ceb, 0xbef9a3f7, 0xc67178f2]]"

text \<open>The eight chaining words \<^verbatim>\<open>h[0..7]\<close> of the Go digest.\<close>

type_synonym chain256 = "u32 \<times> u32 \<times> u32 \<times> u32 \<times> u32 \<times> u32 \<times> u32 \<times> u32"

definition init256 :: chain256 where
  "init256 =
    (0x6a09e667, 0xbb67ae85, 0x3c6ef372, 0xa54ff53a, 0x510e527f, 0x9b05688c, 0x1f83d9ab, 0x5be0cd19)"

definition rotr32 :: "nat \<Rightarrow> u32 \<Rightarrow> u32" where
  "rotr32 n x = (drop_bit n x) OR (push_bit (32 - n) x)"

definition be32 :: "byte \<Rightarrow> byte \<Rightarrow> byte \<Rightarrow> byte \<Rightarrow> u32" where
  "be32 a b c d = push_bit 24 (ucast a) OR push_bit 16 (ucast b) OR push_bit 8 (ucast c) OR ucast d"

text \<open>The first sixteen words of the schedule: the block read as big-endian words.\<close>

fun words_of :: "byte list \<Rightarrow> u32 list" where
  "words_of (a # b # c # d # rest) = be32 a b c d # words_of rest"
| "words_of _ = []"

text \<open>
  The message schedule is built newest word first: with \<open>ws\<close> holding \<open>w[i-1], w[i-2], ...\<close>,
  the word \<open>w[i]\<close> is computed from \<open>w[i-2]\<close>, \<open>w[i-7]\<close>, \<open>w[i-15]\<close> and \<open>w[i-16]\<close>.
\<close>

definition next_word :: "u32 list \<Rightarrow> u32" where
  "next_word ws =
    (let v1 = ws ! 1;
         t1 = rotr32 17 v1 XOR rotr32 19 v1 XOR drop_bit 10 v1;
         v2 = ws ! 14;
         t2 = rotr32 7 v2 XOR rotr32 18 v2 XOR drop_bit 3 v2
     in t1 + ws ! 6 + t2 + ws ! 15)"

fun expand :: "nat \<Rightarrow> u32 list \<Rightarrow> u32 list" where
  "expand 0 ws = ws"
| "expand (Suc n) ws = expand n (next_word ws # ws)"

definition schedule :: "byte list \<Rightarrow> u32 list" where
  "schedule p = rev (expand 48 (rev (words_of p)))"

fun round256 :: "chain256 \<Rightarrow> u32 \<times> u32 \<Rightarrow> chain256" where
  "round256 (a, b, c, d, e, f, g, h) (k, w) =
    (let t1 = h + (rotr32 6 e XOR rotr32 11 e XOR rotr32 25 e) + ((e AND f) XOR (NOT e AND g)) + k + w;
         t2 = (rotr32 2 a XOR rotr32 13 a XOR rotr32 22 a) + ((a AND b) XOR (a AND c) XOR (b AND c))
     in (t1 + t2, a, b, c, d + t1, e, f, g))"

fun add256 :: "chain256 \<Rightarrow> chain256 \<Rightarrow> chain256" where
  "add256 (h0, h1, h2, h3, h4, h5, h6, h7) (a, b, c, d, e, f, g, h) =
    (h0 + a, h1 + b, h2 + c, h3 + d, h4 + e, h5 + f, h6 + g, h7 + h)"

definition block256 :: "chain256 \<Rightarrow> byte list \<Rightarrow> chain256" where
  "block256 hs p = add256 hs (foldl round256 hs (zip K256 (schedule p)))"

text \<open>
  Padding as \<^verbatim>\<open>checkSum\<close> writes it: the byte \<open>0x80\<close>, zero bytes up to 56 modulo 64, and the
  length in bits as a big-endian \<^verbatim>\<open>uint64\<close> (so the bit length wraps modulo \<open>2^64\<close>).
\<close>

definition be64_bytes :: "64 word \<Rightarrow> byte list" where
  "be64_bytes n = map (\<lambda>i. ucast (drop_bit (8 * i) n)) [7, 6, 5, 4, 3, 2, 1, 0]"

definition pad256 :: "byte list \<Rightarrow> byte list" where
  "pad256 msg =
    (let l = length msg;
         r = l mod 64;
         z = (if r < 56 then 55 - r else 119 - r)
     in msg @ [0x80] @ replicate z 0 @ be64_bytes (push_bit 3 (of_nat l)))"

fun blocks256 :: "nat \<Rightarrow> chain256 \<Rightarrow> byte list \<Rightarrow> chain256" where
  "blocks256 0 hs p = hs"
| "blocks256 (Suc n) hs p = blocks256 n (block256 hs (take 64 p)) (drop 64 p)"

definition be32_bytes :: "u32 \<Rightarrow> byte list" where
  "be32_bytes w = [ucast (drop_bit 24 w), ucast (drop_bit 16 w), ucast (drop_bit 8 w), ucast w]"

fun digest_bytes :: "chain256 \<Rightarrow> byte list" where
  "digest_bytes (h0, h1, h2, h3, h4, h5, h6, h7) =
    be32_bytes h0 @ be32_bytes h1 @ be32_bytes h2 @ be32_bytes h3 @
    be32_bytes h4 @ be32_bytes h5 @ be32_bytes h6 @ be32_bytes h7"

text \<open>\<^verbatim>\<open>sha256.Sum256\<close>: the 32 bytes of the digest.\<close>

definition Sum256 :: "byte list \<Rightarrow> byte list" where
  "Sum256 msg = (let p = pad256 msg in digest_bytes (blocks256 (length p div 64) init256 p))"

subsection \<open>Formatting\<close>

text \<open>\<^verbatim>\<open>fmt.Sprintf("%x", bs)\<close> on a byte array: two lower-case hexadecimal digits a byte.\<close>

definition hex_digit :: "byte \<Rightarrow> char" where
  "hex_digit n = (if n < 10 then char_of (48 + unat n) else char_of (87 + unat n))"

definition Sprintf_x :: "byte list \<Rightarrow> string" where
  "Sprintf_x bs = concat (map (\<lambda>b. [hex_digit (drop_bit 4 b), hex_digit (b AND 15)]) bs)"

text \<open>\<^verbatim>\<open>[]byte(s)\<close>: the bytes of a string.\<close>

definition bytes_of :: "string \<Rightarrow> byte list" where
  "bytes_of s = map of_char s"

text \<open>\<^verbatim>\<open>strconv.Itoa\<close>: decimal digits, with a minus sign for a negative number.\<close>

fun decimal :: "nat \<Rightarrow> string" where
  "decimal n = (if n < 10 then [char_of (48 + n)] else decimal (n div 10) @ [char_of (48 + n mod 10)])"

declare decimal.simps [simp del]

definition Itoa :: "int \<Rightarrow> string" where
  "Itoa i = (if i < 0 then CHR ''-'' # decimal (nat (- i)) else decimal (nat i))"

text \<open>
  \<^verbatim>\<open>strings.Repeat\<close> returns at once for the counts 0 and 1, panics on a negative count and
  when the length of the result overflows an \<^verbatim>\<open>int\<close>, and then allocates the buffer of the
  result, where the runtime panics (\<^verbatim>\<open>makeslice: len out of range\<close>) on a length above
  \<^verbatim>\<open>maxAlloc\<close>, which is \<open>2^48\<close> bytes on the 64-bit platforms. A buffer that the runtime
  accepts is taken to be allocated: the memory of the machine is not modelled.
  \<^verbatim>\<open>strings.HasPrefix(s, prefix)\<close> tests whether \<open>s\<close> is at least as long as \<open>prefix\<close> and begins
  with it.
\<close>

datatype panic =
  Negative_Repeat_count | Repeat_output_length_overflow | Makeslice_len_out_of_range
  | Index_out_of_range | Slice_bounds_out_of_range

definition maxInt :: int where
  "maxInt = 2 ^ 63 - 1"

definition maxAlloc :: int where
  "maxAlloc = 2 ^ 48"

definition Repeat :: "string \<Rightarrow> int \<Rightarrow> panic + string" where
  "Repeat s count =
    (if count = 0 then Inr []
     else if count = 1 then Inr s
     else if count < 0 then Inl Negative_Repeat_count
     else if maxInt < int (length s) * count then Inl Repeat_output_length_overflow
     else if s = [] then Inr []
     else if maxAlloc < int (length s) * count then Inl Makeslice_len_out_of_range
     else Inr (concat (replicate (nat count) s)))"

definition HasPrefix :: "string \<Rightarrow> string \<Rightarrow> bool" where
  "HasPrefix s p = (length p \<le> length s \<and> take (length p) s = p)"

section \<open>Blocks\<close>

text \<open>
  The struct \<^verbatim>\<open>Block\<close>. The package reads \<^verbatim>\<open>data\<close> only through \<^verbatim>\<open>json.Marshal\<close> and
  \<^verbatim>\<open>timestamp\<close> only through \<^verbatim>\<open>Time.String\<close>, so the two fields are held by what these calls
  yield: \<open>data\<close> is \<open>None\<close> for the nil map and \<open>Some j\<close> for a map whose encoding is the text
  \<open>j\<close> (the empty text when \<^verbatim>\<open>Marshal\<close> reports an error, which \<^verbatim>\<open>calculateHash\<close> drops), and
  \<open>timestamp\<close> is the text of the instant. The field \<^verbatim>\<open>pow\<close> is a Go \<^verbatim>\<open>int\<close>, 64 bits wide,
  whose increment wraps around.
\<close>

record Block =
  data :: "string option"
  hash :: string
  previousHash :: string
  timestamp :: string
  pow :: "64 word"

definition json_Marshal :: "string option \<Rightarrow> string" where
  "json_Marshal d = (case d of None \<Rightarrow> ''null'' | Some j \<Rightarrow> j)"

definition calculateHash :: "Block \<Rightarrow> string" where
  "calculateHash b =
    (let blockData = previousHash b @ json_Marshal (data b) @ timestamp b @ Itoa (sint (pow b));
         blockHash = Sum256 (bytes_of blockData)
     in Sprintf_x blockHash)"

text \<open>The body of the loop of \<^verbatim>\<open>mine\<close>: \<^verbatim>\<open>b.pow++\<close>, then \<^verbatim>\<open>b.hash = b.calculateHash()\<close>.\<close>

definition mine_body :: "Block \<Rightarrow> Block" where
  "mine_body b = (let b1 = b\<lparr>pow := pow b + 1\<rparr> in b1\<lparr>hash := calculateHash b1\<rparr>)"

text \<open>
  \<^verbatim>\<open>mine\<close>. The loop has no bound, so the result is an option: \<open>None\<close> when the loop runs
  forever, \<open>Some (Inl p)\<close> when the call panics, \<open>Some (Inr b')\<close> when it returns and leaves
  the block as \<open>b'\<close>. The condition evaluates \<^verbatim>\<open>strings.Repeat("0", difficulty)\<close> before each
  test of the prefix.
\<close>

partial_function (option) mine :: "int \<Rightarrow> Block \<Rightarrow> (panic + Block) option" where
  "mine difficulty b =
    (case Repeat ''0'' difficulty of
       Inl p \<Rightarrow> Some (Inl p)
     | Inr zeros \<Rightarrow>
         if \<not> HasPrefix (hash b) zeros then mine difficulty (mine_body b)
         else Some (Inr b))"

declare mine.simps [code]

section \<open>The ledger\<close>

text \<open>The struct \<^verbatim>\<open>Blockchain\<close>; \<^verbatim>\<open>difficulty\<close> is a Go \<^verbatim>\<open>int\<close>, on which no arithmetic is done.\<close>

record Blockchain =
  genesisBlock :: Block
  chain :: "Block list"
  difficulty :: int

text \<open>\<^verbatim>\<open>CreateBlockchain\<close>; \<open>now\<close> is what \<^verbatim>\<open>time.Now()\<close> returns.\<close>

definition CreateBlockchain :: "int \<Rightarrow> string \<Rightarrow> Blockchain" where
  "CreateBlockchain d now =
    (let genesis = \<lparr>data = None, hash = ''0'', previousHash = [], timestamp = now, pow = 0\<rparr>
     in \<lparr>genesisBlock = genesis, chain = [genesis], difficulty = d\<rparr>)"

text \<open>
  \<^verbatim>\<open>AddTransaction\<close>. The arguments \<^verbatim>\<open>from\<close>, \<^verbatim>\<open>to\<close> and \<^verbatim>\<open>amount\<close> only build the map
  \<^verbatim>\<open>blockData\<close>, which is given here by its encoding; \<open>now\<close> is what \<^verbatim>\<open>time.Now()\<close> returns.
  Reading the last block of an empty sequence panics.
\<close>

definition AddTransaction :: "string \<Rightarrow> string \<Rightarrow> Blockchain \<Rightarrow> (panic + Blockchain) option" where
  "AddTransaction blockData now b =
    (if chain b = [] then Some (Inl Index_out_of_range)
     else
       let lastBlock = chain b ! (length (chain b) - 1);
           newBlock = \<lparr>data = Some blockData, hash = [], previousHash = hash lastBlock,
                       timestamp = now, pow = 0\<rparr>
       in case mine (difficulty b) newBlock of
            None \<Rightarrow> None
          | Some (Inl p) \<Rightarrow> Some (Inl p)
          | Some (Inr mined) \<Rightarrow> Some (Inr (b\<lparr>chain := chain b @ [mined]\<rparr>)))"

text \<open>A caller that appends one block after the other, as \<^verbatim>\<open>main\<close> does, and stops at a panic.\<close>

fun AddTransactions :: "(string \<times> string) list \<Rightarrow> Blockchain \<Rightarrow> (panic + Blockchain) option" where
  "AddTransactions [] b = Some (Inr b)"
| "AddTransactions ((blockData, now) # rest) b =
    (case AddTransaction blockData now b of
       None \<Rightarrow> None
     | Some (Inl p) \<Rightarrow> Some (Inl p)
     | Some (Inr b') \<Rightarrow> AddTransactions rest b')"

text \<open>
  \<^verbatim>\<open>IsValid\<close>. The slice expression \<^verbatim>\<open>b.chain[1:]\<close> panics on an empty sequence; otherwise
  the loop visits the indices \<open>0, ..., len - 2\<close> and returns false at the first pair that
  fails a check.
\<close>

fun IsValid_loop :: "Block list \<Rightarrow> nat list \<Rightarrow> bool" where
  "IsValid_loop c [] = True"
| "IsValid_loop c (i # rest) =
    (let previousBlock = c ! i;
         currentBlock = c ! (i + 1)
     in if hash currentBlock \<noteq> calculateHash currentBlock
           \<or> previousHash currentBlock \<noteq> hash previousBlock
        then False
        else IsValid_loop c rest)"

definition IsValid :: "Blockchain \<Rightarrow> panic + bool" where
  "IsValid b =
    (if chain b = [] then Inl Slice_bounds_out_of_range
     else Inr (IsValid_loop (chain b) [0 ..< length (chain b) - 1]))"

section \<open>Notions used in the statements\<close>

text \<open>The block literal that \<^verbatim>\<open>AddTransaction\<close> builds and then mines.\<close>

definition newBlock :: "string \<Rightarrow> string \<Rightarrow> Blockchain \<Rightarrow> Block" where
  "newBlock blockData now b =
    \<lparr>data = Some blockData, hash = [], previousHash = hash (chain b ! (length (chain b) - 1)),
     timestamp = now, pow = 0\<rparr>"

text \<open>The two checks of \<^verbatim>\<open>IsValid\<close> on the blocks at \<open>i\<close> and \<open>i + 1\<close>, both passed.\<close>

definition pair_passes :: "Block list \<Rightarrow> nat \<Rightarrow> bool" where
  "pair_passes c i =
    (hash (c ! (i + 1)) = calculateHash (c ! (i + 1)) \<and> previousHash (c ! (i + 1)) = hash (c ! i))"

subsection \<open>Sample inputs\<close>

definition genesis_time :: string where
  "genesis_time = ''2024-05-01 12:00:00.123400000 +0000 UTC m=+0.000012345''"

definition Alice_pays_Bob :: string where
  \<open>Alice_pays_Bob = ''{"amount":5,"from":"Alice","to":"Bob"}''\<close>

definition Alice_time :: string where
  "Alice_time = ''2024-05-01 12:00:00.123482000 +0000 UTC m=+0.000041026''"

definition John_pays_Bob :: string where
  \<open>John_pays_Bob = ''{"amount":2,"from":"John","to":"Bob"}''\<close>

definition John_time :: string where
  "John_time = ''2024-05-01 12:00:00.123990000 +0000 UTC m=+0.000549026''"

definition fresh_Alice :: Block where
  "fresh_Alice =
    \<lparr>data = Some Alice_pays_Bob, hash = [], previousHash = ''0'', timestamp = Alice_time, pow = 0\<rparr>"

definition mined_Alice :: Block where
  "mined_Alice =
    \<lparr>data = Some Alice_pays_Bob,
     hash = ''0fac93fa7e66b49dd62e8cca7f1257e64e3ce7a6322b8d609182e8d0b1ac088a'',
     previousHash = ''0'', timestamp = Alice_time, pow = 1\<rparr>"

definition fresh_John :: Block where
  "fresh_John =
    \<lparr>data = Some John_pays_Bob, hash = [], previousHash = [], timestamp = John_time, pow = 0\<rparr>"

section \<open>Facts about the library routines\<close>

text \<open>The model of SHA-256 reproduces the digest of \<open>abc\<close> given in FIPS 180-4.\<close>

lemma Sum256_abc:
  "Sprintf_x (Sum256 (bytes_of ''abc'')) =
    ''ba7816bf8f01cfea414140de5dae2223b00361a396177a9cb410ff61f20015ad''"
  by code_simp

lemma length_Sprintf_x: "length (Sprintf_x bs) = 2 * length bs"
  by (induction bs) (simp_all add: Sprintf_x_def)

lemma length_digest_bytes: "length (digest_bytes st) = 32"
  by (cases st rule: digest_bytes.cases) (simp add: be32_bytes_def)

lemma length_Sum256: "length (Sum256 msg) = 32"
  by (simp add: Sum256_def Let_def length_digest_bytes)

lemma Repeat_zero_char:
  "Repeat ''0'' d =
    (if d < 0 then Inl Negative_Repeat_count
     else if maxInt < d then Inl Repeat_output_length_overflow
     else if maxAlloc < d then Inl Makeslice_len_out_of_range
     else Inr (replicate (nat d) CHR ''0''))"
proof -
  have "concat (replicate n ''0'') = replicate n CHR ''0''" for n
    by (induction n) simp_all
  then show ?thesis by (simp add: Repeat_def maxInt_def maxAlloc_def)
qed

lemma Repeat_zero_char_ok:
  "0 \<le> d \<Longrightarrow> d \<le> maxAlloc \<Longrightarrow> Repeat ''0'' d = Inr (replicate (nat d) CHR ''0'')"
  by (simp add: Repeat_zero_char maxInt_def maxAlloc_def)

lemma HasPrefix_length: "HasPrefix s p \<Longrightarrow> length p \<le> length s"
  by (simp add: HasPrefix_def)

section \<open>Hashing a block\<close>

lemma length_calculateHash: "length (calculateHash b) = 64"
  by (simp add: calculateHash_def Let_def length_Sprintf_x length_Sum256)

lemma calculateHash_not_empty: "calculateHash b \<noteq> []"
  using length_calculateHash [of b] by auto

lemma calculateHash_hash_update: "calculateHash (b\<lparr>hash := h\<rparr>) = calculateHash b"
  by (simp add: calculateHash_def)

lemma calculateHash_same_input:
  assumes "data b = data b'" "previousHash b = previousHash b'"
    "timestamp b = timestamp b'" "pow b = pow b'"
  shows "calculateHash b = calculateHash b'"
  using assms by (simp add: calculateHash_def)

lemma calculateHash_mined_Alice:
  "calculateHash mined_Alice = ''0fac93fa7e66b49dd62e8cca7f1257e64e3ce7a6322b8d609182e8d0b1ac088a''"
  by code_simp

section \<open>The mining loop\<close>

lemma mine_negative: "d < 0 \<Longrightarrow> mine d b = Some (Inl Negative_Repeat_count)"
  by (subst mine.simps) (simp add: Repeat_zero_char)


lemma mine_done:
  "0 \<le> d \<Longrightarrow> d \<le> maxAlloc \<Longrightarrow> HasPrefix (hash b) (replicate (nat d) CHR ''0'') \<Longrightarrow>
    mine d b = Some (Inr b)"
  by (subst mine.simps) (simp add: Repeat_zero_char_ok)

lemma mine_again:
  "0 \<le> d \<Longrightarrow> d \<le> maxAlloc \<Longrightarrow> \<not> HasPrefix (hash b) (replicate (nat d) CHR ''0'') \<Longrightarrow>
    mine d b = mine d (mine_body b)"
  by (subst mine.simps) (simp add: Repeat_zero_char_ok)

lemma mine_zero: "mine 0 b = Some (Inr b)"
  by (rule mine_done) (simp_all add: HasPrefix_def maxAlloc_def)

lemma mine_body_fields:
  "data (mine_body b) = data b" "previousHash (mine_body b) = previousHash b"
  "timestamp (mine_body b) = timestamp b" "pow (mine_body b) = pow b + 1"
  by (simp_all add: mine_body_def Let_def)

lemma hash_mine_body: "hash (mine_body b) = calculateHash (mine_body b)"
  by (simp add: mine_body_def Let_def calculateHash_hash_update)

lemma funpow_mine_body_fields:
  "data ((mine_body ^^ n) b) = data b" "previousHash ((mine_body ^^ n) b) = previousHash b"
  "timestamp ((mine_body ^^ n) b) = timestamp b" "pow ((mine_body ^^ n) b) = pow b + of_nat n"
  by (induction n) (simp_all add: mine_body_fields)

lemma funpow_mine_body_hash:
  "0 < n \<Longrightarrow> hash ((mine_body ^^ n) b) = calculateHash ((mine_body ^^ n) b)"
  by (cases n) (simp_all add: hash_mine_body)


text \<open>
  Partial correctness of the loop: a call that returns has panicked in \<^verbatim>\<open>strings.Repeat\<close>, on
  a negative count or on one above \<^verbatim>\<open>maxAlloc\<close>, or has run the body \<open>n\<close> times, where \<open>n\<close> is
  the first number of runs after which the hash has the prefix.
\<close>

lemma mine_result:
  assumes "mine d b = Some r"
  shows "(d < 0 \<and> r = Inl Negative_Repeat_count) \<or>
         (maxAlloc < d \<and> (\<exists>p. r = Inl p)) \<or>
         (0 \<le> d \<and> d \<le> maxAlloc \<and> (\<exists>n. r = Inr ((mine_body ^^ n) b) \<and>
            HasPrefix (hash ((mine_body ^^ n) b)) (replicate (nat d) CHR ''0'') \<and>
            (\<forall>m<n. \<not> HasPrefix (hash ((mine_body ^^ m) b)) (replicate (nat d) CHR ''0''))))"
  using assms
proof (induction d b r rule: mine.raw_induct[rotated 1, consumes 1])
  case (1 mine' d b r)
  show ?case
  proof (cases "d < 0 \<or> maxAlloc < d")
    case True
    with 1(2) show ?thesis by (auto simp add: Repeat_zero_char split: if_splits)
  next
    case False
    then have nonneg: "0 \<le> d" "d \<le> maxAlloc" by simp_all
    then have zeros: "Repeat ''0'' d = Inr (replicate (nat d) CHR ''0'')"
      by (rule Repeat_zero_char_ok)
    show ?thesis
    proof (cases "HasPrefix (hash b) (replicate (nat d) CHR ''0'')")
      case True
      with zeros 1(2) have "r = Inr b" by simp
      with True nonneg show ?thesis by (intro disjI2 conjI exI[of _ 0]) simp_all
    next
      case False
      with zeros 1(2) have "mine' d (mine_body b) = Some r" by simp
      from 1(1)[OF this] nonneg obtain n where
        n: "r = Inr ((mine_body ^^ n) (mine_body b))"
           "HasPrefix (hash ((mine_body ^^ n) (mine_body b))) (replicate (nat d) CHR ''0'')"
           "\<forall>m<n. \<not> HasPrefix (hash ((mine_body ^^ m) (mine_body b))) (replicate (nat d) CHR ''0'')"
        by auto
      have "\<forall>m<Suc n. \<not> HasPrefix (hash ((mine_body ^^ m) b)) (replicate (nat d) CHR ''0'')"
      proof (intro allI impI)
        fix m assume "m < Suc n"
        show "\<not> HasPrefix (hash ((mine_body ^^ m) b)) (replicate (nat d) CHR ''0'')"
        proof (cases m)
          case 0 with False show ?thesis by simp
        next
          case (Suc k)
          with \<open>m < Suc n\<close> n(3) show ?thesis by (simp add: funpow_swap1)
        qed
      qed
      with n(1,2) nonneg show ?thesis
        by (intro disjI2 conjI exI[of _ "Suc n"]) (simp_all add: funpow_swap1)
    qed
  qed
qed

text \<open>Termination of the loop once some number of runs of the body reaches the prefix.\<close>

lemma mine_returns:
  assumes "0 \<le> d" "d \<le> maxAlloc"
    "HasPrefix (hash ((mine_body ^^ n) b)) (replicate (nat d) CHR ''0'')"
  shows "\<exists>k\<le>n. mine d b = Some (Inr ((mine_body ^^ k) b))"
  using assms(3)
proof (induction n arbitrary: b)
  case 0
  with assms(1,2) show ?case by (simp add: mine_done)
next
  case (Suc n)
  show ?case
  proof (cases "HasPrefix (hash b) (replicate (nat d) CHR ''0'')")
    case True
    with assms(1,2) have "mine d b = Some (Inr ((mine_body ^^ 0) b))" by (simp add: mine_done)
    then show ?thesis by blast
  next
    case False
    from Suc.prems
    have "HasPrefix (hash ((mine_body ^^ n) (mine_body b))) (replicate (nat d) CHR ''0'')"
      by (simp add: funpow_swap1)
    from Suc.IH[OF this] obtain k where
      "k \<le> n" "mine d (mine_body b) = Some (Inr ((mine_body ^^ k) (mine_body b)))"
      by blast
    with False assms(1,2)
    have "Suc k \<le> Suc n" "mine d b = Some (Inr ((mine_body ^^ Suc k) b))"
      by (simp_all add: mine_again funpow_swap1)
    then show ?thesis by blast
  qed
qed

lemma mine_Inr:
  assumes "mine d b = Some (Inr b')"
  shows "0 \<le> d \<and> d \<le> maxAlloc \<and> HasPrefix (hash b') (replicate (nat d) CHR ''0'') \<and>
         data b' = data b \<and> previousHash b' = previousHash b \<and> timestamp b' = timestamp b \<and>
         (b' = b \<or> hash b' = calculateHash b')"
proof -
  from mine_result [OF assms] obtain n where
    n: "0 \<le> d" "d \<le> maxAlloc" "b' = (mine_body ^^ n) b"
       "HasPrefix (hash ((mine_body ^^ n) b)) (replicate (nat d) CHR ''0'')"
    by auto
  have "b' = b \<or> hash b' = calculateHash b'"
    using n(3) funpow_mine_body_hash [of n b] by (cases "n = 0") simp_all
  with n show ?thesis by (simp add: funpow_mine_body_fields)
qed

lemma mine_positive_fresh:
  assumes "mine d b = Some (Inr b')" "0 < d" "hash b = []"
  shows "hash b' = calculateHash b'"
proof -
  from mine_Inr [OF assms(1)] have p: "HasPrefix (hash b') (replicate (nat d) CHR ''0'')"
    and alt: "b' = b \<or> hash b' = calculateHash b'" by simp_all
  from HasPrefix_length [OF p] assms(2) have "hash b' \<noteq> []" by auto
  with alt assms(3) show ?thesis by auto
qed

text \<open>
  After \<open>n > 0\<close> runs of the body the stored hash is the hash of the block with the proof
  advanced by \<open>n\<close>, modulo \<open>2^64\<close>; so the loop tries every value of the proof within \<open>2^64\<close>
  runs and then repeats itself.
\<close>

lemma hash_funpow_pow:
  assumes "0 < n"
  shows "hash ((mine_body ^^ n) b) = calculateHash (b\<lparr>pow := pow b + of_nat n\<rparr>)"
proof -
  have "hash ((mine_body ^^ n) b) = calculateHash ((mine_body ^^ n) b)"
    using assms by (rule funpow_mine_body_hash)
  also have "\<dots> = calculateHash (b\<lparr>pow := pow b + of_nat n\<rparr>)"
    by (rule calculateHash_same_input) (simp_all add: funpow_mine_body_fields)
  finally show ?thesis .
qed

lemma every_pow_reached:
  fixes p q :: "64 word"
  shows "\<exists>n. 0 < n \<and> n \<le> 2 ^ 64 \<and> q + of_nat n = p"
proof (cases "p = q")
  case True
  have "(of_nat (2 ^ 64) :: 64 word) = 0" by simp
  with True have "0 < (2 ^ 64 :: nat) \<and> (2 ^ 64 :: nat) \<le> 2 ^ 64 \<and> q + of_nat (2 ^ 64) = p"
    by simp
  then show ?thesis by (rule exI)
next
  case False
  let ?n = "unat (p - q)"
  have "p - q \<noteq> 0" using False by simp
  then have "0 < ?n" by (simp add: unat_gt_0)
  moreover have "?n \<le> 2 ^ 64" using unsigned_less [of "p - q", where 'a = nat] by simp
  moreover have "q + of_nat ?n = p" by simp
  ultimately show ?thesis by blast
qed


lemma prefix_reached_iff:
  "(\<exists>n. HasPrefix (hash ((mine_body ^^ n) b)) z) =
   (HasPrefix (hash b) z \<or> (\<exists>p. HasPrefix (calculateHash (b\<lparr>pow := p\<rparr>)) z))"
proof
  assume "\<exists>n. HasPrefix (hash ((mine_body ^^ n) b)) z"
  then obtain n where n: "HasPrefix (hash ((mine_body ^^ n) b)) z" ..
  show "HasPrefix (hash b) z \<or> (\<exists>p. HasPrefix (calculateHash (b\<lparr>pow := p\<rparr>)) z)"
  proof (cases "n = 0")
    case True
    with n show ?thesis by simp
  next
    case False
    with n have "HasPrefix (calculateHash (b\<lparr>pow := pow b + of_nat n\<rparr>)) z"
      by (simp add: hash_funpow_pow)
    then show ?thesis by blast
  qed
next
  assume "HasPrefix (hash b) z \<or> (\<exists>p. HasPrefix (calculateHash (b\<lparr>pow := p\<rparr>)) z)"
  then show "\<exists>n. HasPrefix (hash ((mine_body ^^ n) b)) z"
  proof
    assume "HasPrefix (hash b) z"
    then have "HasPrefix (hash ((mine_body ^^ 0) b)) z" by simp
    then show ?thesis by (rule exI)
  next
    assume "\<exists>p. HasPrefix (calculateHash (b\<lparr>pow := p\<rparr>)) z"
    then obtain p where p: "HasPrefix (calculateHash (b\<lparr>pow := p\<rparr>)) z" ..
    from every_pow_reached [of "pow b" p] obtain n where "0 < n" "pow b + of_nat n = p"
      by blast
    with p have "HasPrefix (hash ((mine_body ^^ n) b)) z" by (simp add: hash_funpow_pow)
    then show ?thesis by (rule exI)
  qed
qed

lemma mine_returns_iff:
  assumes "0 \<le> d"
  shows "(\<exists>b'. mine d b = Some (Inr b')) =
         (d \<le> maxAlloc \<and>
          (HasPrefix (hash b) (replicate (nat d) CHR ''0'') \<or>
           (\<exists>p. HasPrefix (calculateHash (b\<lparr>pow := p\<rparr>)) (replicate (nat d) CHR ''0''))))"
proof
  assume "\<exists>b'. mine d b = Some (Inr b')"
  then obtain b' where "mine d b = Some (Inr b')" ..
  from mine_result [OF this]
  have "d \<le> maxAlloc" "\<exists>n. HasPrefix (hash ((mine_body ^^ n) b)) (replicate (nat d) CHR ''0'')"
    by auto
  then show "d \<le> maxAlloc \<and>
          (HasPrefix (hash b) (replicate (nat d) CHR ''0'') \<or>
           (\<exists>p. HasPrefix (calculateHash (b\<lparr>pow := p\<rparr>)) (replicate (nat d) CHR ''0'')))"
    by (simp add: prefix_reached_iff)
next
  assume r: "d \<le> maxAlloc \<and>
          (HasPrefix (hash b) (replicate (nat d) CHR ''0'') \<or>
           (\<exists>p. HasPrefix (calculateHash (b\<lparr>pow := p\<rparr>)) (replicate (nat d) CHR ''0'')))"
  then have "\<exists>n. HasPrefix (hash ((mine_body ^^ n) b)) (replicate (nat d) CHR ''0'')"
    by (simp add: prefix_reached_iff)
  then obtain n where "HasPrefix (hash ((mine_body ^^ n) b)) (replicate (nat d) CHR ''0'')" ..
  from mine_returns [OF assms _ this] r show "\<exists>b'. mine d b = Some (Inr b')" by blast
qed

text \<open>
  At difficulty 64 a new block, whose stored hash is empty, is mined only if some value of
  the proof gives it the digest of 64 characters \<open>0\<close>.
\<close>

lemma mine_64_needs_zero_digest:
  assumes "hash b = []"
  shows "(\<exists>b'. mine 64 b = Some (Inr b')) =
         (\<exists>p. calculateHash (b\<lparr>pow := p\<rparr>) = replicate 64 CHR ''0'')"
proof -
  have "HasPrefix (calculateHash c) (replicate (nat 64) CHR ''0'') =
        (calculateHash c = replicate 64 CHR ''0'')" for c
    using length_calculateHash [of c] by (auto simp add: HasPrefix_def)
  moreover have "\<not> HasPrefix (hash b) (replicate (nat 64) CHR ''0'')"
    using assms by (simp add: HasPrefix_def)
  ultimately show ?thesis
    using mine_returns_iff [of 64 b] by (simp add: maxAlloc_def)
qed




text \<open>The sample block is mined at difficulty 1 by one run of the body.\<close>

lemma mine_body_fresh_Alice: "mine_body fresh_Alice = mined_Alice"
proof -
  have "calculateHash (fresh_Alice\<lparr>pow := 1\<rparr>) = calculateHash mined_Alice"
    by (simp add: calculateHash_def fresh_Alice_def mined_Alice_def)
  then show ?thesis
    by (simp add: mine_body_def Let_def calculateHash_mined_Alice)
      (simp add: fresh_Alice_def mined_Alice_def)
qed

lemma mine_fresh_Alice: "mine 1 fresh_Alice = Some (Inr mined_Alice)"
proof -
  have "\<not> HasPrefix (hash fresh_Alice) (replicate (nat 1) CHR ''0'')"
    by (simp add: HasPrefix_def fresh_Alice_def)
  then have "mine 1 fresh_Alice = mine 1 mined_Alice"
    using mine_again [of 1 fresh_Alice] by (simp add: mine_body_fresh_Alice maxAlloc_def)
  moreover have "HasPrefix (hash mined_Alice) (replicate (nat 1) CHR ''0'')"
    by (simp add: HasPrefix_def mined_Alice_def)
  then have "mine 1 mined_Alice = Some (Inr mined_Alice)"
    using mine_done [of 1 mined_Alice] by (simp add: maxAlloc_def)
  ultimately show ?thesis by simp
qed

section \<open>Appending to the ledger\<close>

lemma CreateBlockchain_chain:
  "chain (CreateBlockchain d now) = [genesisBlock (CreateBlockchain d now)]"
  by (simp add: CreateBlockchain_def Let_def)

lemma CreateBlockchain_difficulty: "difficulty (CreateBlockchain d now) = d"
  by (simp add: CreateBlockchain_def Let_def)

lemma CreateBlockchain_genesis:
  "genesisBlock (CreateBlockchain d now) =
    \<lparr>data = None, hash = ''0'', previousHash = [], timestamp = now, pow = 0\<rparr>"
  by (simp add: CreateBlockchain_def Let_def)

lemma AddTransaction_newBlock:
  "chain b \<noteq> [] \<Longrightarrow> AddTransaction x now b =
     (case mine (difficulty b) (newBlock x now b) of
        None \<Rightarrow> None
      | Some (Inl p) \<Rightarrow> Some (Inl p)
      | Some (Inr mined) \<Rightarrow> Some (Inr (b\<lparr>chain := chain b @ [mined]\<rparr>)))"
  by (simp add: AddTransaction_def newBlock_def Let_def)

lemma AddTransaction_Some:
  assumes "AddTransaction x now b = Some (Inr b')"
  shows "chain b \<noteq> [] \<and>
         (\<exists>m. b' = b\<lparr>chain := chain b @ [m]\<rparr> \<and>
              mine (difficulty b) (newBlock x now b) = Some (Inr m))"
  using assms
  by (auto simp add: AddTransaction_def newBlock_def Let_def
      split: if_splits option.splits sum.splits)


lemma AddTransaction_difficulty_0:
  assumes "difficulty b = 0" "chain b \<noteq> []"
  shows "AddTransaction x now b = Some (Inr (b\<lparr>chain := chain b @ [newBlock x now b]\<rparr>))"
  using assms by (simp add: AddTransaction_newBlock mine_zero)

lemma AddTransactions_difficulty_0:
  assumes "difficulty b = 0" "chain b \<noteq> []"
  shows "\<exists>news. AddTransactions txs b = Some (Inr (b\<lparr>chain := chain b @ news\<rparr>)) \<and>
           length news = length txs \<and> (\<forall>m\<in>set news. hash m = [] \<and> pow m = 0)"
  using assms
proof (induction txs arbitrary: b)
  case Nil
  then show ?case by simp
next
  case (Cons tx txs)
  obtain x now where tx: "tx = (x, now)" by (cases tx)
  let ?b1 = "b\<lparr>chain := chain b @ [newBlock x now b]\<rparr>"
  have step: "AddTransaction x now b = Some (Inr ?b1)"
    using Cons.prems by (rule AddTransaction_difficulty_0)
  have "difficulty ?b1 = 0" "chain ?b1 \<noteq> []" using Cons.prems by simp_all
  from Cons.IH [OF this] obtain news where
    news: "AddTransactions txs ?b1 = Some (Inr (?b1\<lparr>chain := chain ?b1 @ news\<rparr>))"
          "length news = length txs" "\<forall>m\<in>set news. hash m = [] \<and> pow m = 0"
    by blast
  have "AddTransactions (tx # txs) b = Some (Inr (b\<lparr>chain := chain b @ (newBlock x now b # news)\<rparr>))"
    using step news(1) by (simp add: tx)
  moreover have "length (newBlock x now b # news) = length (tx # txs)" using news(2) by simp
  moreover have "\<forall>m\<in>set (newBlock x now b # news). hash m = [] \<and> pow m = 0"
    using news(3) by (simp add: newBlock_def)
  ultimately show ?case by blast
qed

text \<open>At a positive difficulty an append keeps every adjacent pair passing both checks.\<close>

lemma AddTransaction_keeps_links:
  assumes add: "AddTransaction x now b = Some (Inr b')"
    and pos: "0 < difficulty b"
    and inv: "\<forall>i. i + 1 < length (chain b) \<longrightarrow> pair_passes (chain b) i"
  shows "\<forall>i. i + 1 < length (chain b') \<longrightarrow> pair_passes (chain b') i"
proof (intro allI impI)
  fix i assume i: "i + 1 < length (chain b')"
  from AddTransaction_Some [OF add] obtain m where
    ne: "chain b \<noteq> []" and b': "b' = b\<lparr>chain := chain b @ [m]\<rparr>"
    and m: "mine (difficulty b) (newBlock x now b) = Some (Inr m)"
    by auto
  have fresh: "hash (newBlock x now b) = []" by (simp add: newBlock_def)
  from mine_positive_fresh [OF m pos fresh] have hm: "hash m = calculateHash m" .
  from mine_Inr [OF m] have pm: "previousHash m = hash (chain b ! (length (chain b) - 1))"
    by (simp add: newBlock_def)
  show "pair_passes (chain b') i"
  proof (cases "i + 1 < length (chain b)")
    case True
    with inv have "pair_passes (chain b) i" by blast
    with True show ?thesis by (simp add: b' pair_passes_def nth_append)
  next
    case False
    with i b' have last: "i = length (chain b) - 1" "length (chain b) - 1 < length (chain b)"
      using ne by simp_all
    then have "chain b' ! (i + 1) = m" "chain b' ! i = chain b ! (length (chain b) - 1)"
      by (simp_all add: b' nth_append)
    with hm pm show ?thesis by (simp add: pair_passes_def)
  qed
qed

lemma AddTransactions_keeps_links:
  assumes "AddTransactions txs b = Some (Inr b')" "0 < difficulty b"
    "\<forall>i. i + 1 < length (chain b) \<longrightarrow> pair_passes (chain b) i"
  shows "\<forall>i. i + 1 < length (chain b') \<longrightarrow> pair_passes (chain b') i"
  using assms
proof (induction txs arbitrary: b)
  case Nil
  then show ?case by simp
next
  case (Cons tx txs)
  obtain x now where tx: "tx = (x, now)" by (cases tx)
  from Cons.prems(1) obtain b1 where
    b1: "AddTransaction x now b = Some (Inr b1)" "AddTransactions txs b1 = Some (Inr b')"
    by (auto simp add: tx split: option.splits sum.splits)
  from AddTransaction_Some [OF b1(1)] have "difficulty b1 = difficulty b" by auto
  with Cons.prems(2) have "0 < difficulty b1" by simp
  from Cons.IH [OF b1(2) this AddTransaction_keeps_links [OF b1(1) Cons.prems(2,3)]]
  show ?case .
qed

text \<open>
  Hence the two checks hold for every block after the genesis block in a ledger that was
  created with a positive difficulty and then only appended to.
\<close>

lemma positive_difficulty_ledger:
  assumes "0 < d" "AddTransactions txs (CreateBlockchain d t0) = Some (Inr b)"
  shows "\<forall>i. i + 1 < length (chain b) \<longrightarrow>
           hash (chain b ! (i + 1)) = calculateHash (chain b ! (i + 1)) \<and>
           previousHash (chain b ! (i + 1)) = hash (chain b ! i)"
proof -
  have "0 < difficulty (CreateBlockchain d t0)"
    "\<forall>i. i + 1 < length (chain (CreateBlockchain d t0)) \<longrightarrow>
       pair_passes (chain (CreateBlockchain d t0)) i"
    using assms(1) by (simp_all add: CreateBlockchain_def Let_def)
  from AddTransactions_keeps_links [OF assms(2) this] show ?thesis
    by (simp add: pair_passes_def)
qed

section \<open>Validation\<close>

lemma IsValid_loop_all: "IsValid_loop c js = (\<forall>i\<in>set js. pair_passes c i)"
  by (induction js) (auto simp add: Let_def pair_passes_def)

lemma IsValid_nonempty:
  assumes "chain b \<noteq> []"
  shows "IsValid b = Inr (\<forall>i. i + 1 < length (chain b) \<longrightarrow> pair_passes (chain b) i)"
proof -
  have "(\<forall>i\<in>set [0 ..< length (chain b) - 1]. pair_passes (chain b) i)
      = (\<forall>i. i + 1 < length (chain b) \<longrightarrow> pair_passes (chain b) i)"
    by auto
  with assms show ?thesis by (simp add: IsValid_def IsValid_loop_all)
qed

text \<open>On the zero value of \<^verbatim>\<open>Blockchain\<close>, whose sequence is empty, the call panics.\<close>

lemma IsValid_empty: "chain b = [] \<Longrightarrow> IsValid b = Inl Slice_bounds_out_of_range"
  by (simp add: IsValid_def)

section \<open>The claims\<close>

text \<open>
  C1. On a ledger whose block sequence is not empty (index 0 holds the genesis block),
  \<^verbatim>\<open>IsValid\<close> returns true if and only if, for every adjacent pair of blocks from the second
  block onward, the hash of the current block equals its recomputed hash and its previous hash
  equals the hash of the block before it; so it returns false when either check fails for
  some pair.
\<close>

theorem IsValid_iff:
  assumes "chain b \<noteq> []"
  shows "IsValid b = Inr (\<forall>i. i + 1 < length (chain b) \<longrightarrow>
           hash (chain b ! (i + 1)) = calculateHash (chain b ! (i + 1)) \<and>
           previousHash (chain b ! (i + 1)) = hash (chain b ! i))"
  using IsValid_nonempty [OF assms] by (simp add: pair_passes_def)

theorem IsValid_iff_witness:
  "chain \<lparr>genesisBlock = genesisBlock (CreateBlockchain 1 genesis_time),
          chain = [genesisBlock (CreateBlockchain 1 genesis_time), mined_Alice],
          difficulty = 1\<rparr> \<noteq> [] \<and>
   IsValid \<lparr>genesisBlock = genesisBlock (CreateBlockchain 1 genesis_time),
            chain = [genesisBlock (CreateBlockchain 1 genesis_time), mined_Alice],
            difficulty = 1\<rparr> = Inr True"
proof -
  let ?b = "\<lparr>genesisBlock = genesisBlock (CreateBlockchain 1 genesis_time),
             chain = [genesisBlock (CreateBlockchain 1 genesis_time), mined_Alice],
             difficulty = 1\<rparr>"
  have ne: "chain ?b \<noteq> []" by simp
  have "hash (chain ?b ! (i + 1)) = calculateHash (chain ?b ! (i + 1)) \<and>
        previousHash (chain ?b ! (i + 1)) = hash (chain ?b ! i)"
    if "i + 1 < length (chain ?b)" for i
  proof -
    from that have "i = 0" by simp
    then show ?thesis
      by (simp add: calculateHash_mined_Alice)
        (simp add: mined_Alice_def CreateBlockchain_genesis)
  qed
  with IsValid_iff [OF ne] ne show ?thesis by simp
qed

text \<open>
  C2. At difficulty 0 the ledger built by \<^verbatim>\<open>CreateBlockchain\<close> and one \<^verbatim>\<open>AddTransaction\<close> holds a
  second block whose stored hash is empty, hence different from its recomputed hash: the
  invariant \<open>hash = calculateHash()\<close> of the blocks after the genesis block is broken there.
\<close>

theorem AddTransaction_difficulty_0_unhashed:
  "AddTransaction Alice_pays_Bob Alice_time (CreateBlockchain 0 genesis_time) =
     Some (Inr \<lparr>genesisBlock = genesisBlock (CreateBlockchain 0 genesis_time),
                chain = [genesisBlock (CreateBlockchain 0 genesis_time), fresh_Alice],
                difficulty = 0\<rparr>) \<and>
   hash fresh_Alice = [] \<and>
   hash fresh_Alice \<noteq> calculateHash fresh_Alice"
proof -
  have "AddTransaction Alice_pays_Bob Alice_time (CreateBlockchain 0 genesis_time) =
     Some (Inr \<lparr>genesisBlock = genesisBlock (CreateBlockchain 0 genesis_time),
                chain = [genesisBlock (CreateBlockchain 0 genesis_time), fresh_Alice],
                difficulty = 0\<rparr>)"
    by (subst AddTransaction_difficulty_0)
      (simp_all add: CreateBlockchain_def Let_def newBlock_def fresh_Alice_def)
  moreover have "hash fresh_Alice = []" by (simp add: fresh_Alice_def)
  ultimately show ?thesis using calculateHash_not_empty [of fresh_Alice] by simp
qed

text \<open>
  C3. Called with difficulty 0 on a freshly built block, \<^verbatim>\<open>mine\<close> returns the block as it
  was: the proof is still 0 and the hash still empty, which is not the block left by one run
  of the loop body.
\<close>

theorem mine_difficulty_0_no_iteration:
  "mine 0 fresh_Alice = Some (Inr fresh_Alice) \<and>
   pow fresh_Alice = 0 \<and> hash fresh_Alice = [] \<and>
   mine 0 fresh_Alice \<noteq> Some (Inr (mine_body fresh_Alice))"
proof -
  have "pow (mine_body fresh_Alice) \<noteq> pow fresh_Alice"
    by (simp add: mine_body_fields fresh_Alice_def)
  then have "mine_body fresh_Alice \<noteq> fresh_Alice" by auto
  then show ?thesis by (simp add: mine_zero) (simp add: fresh_Alice_def)
qed

text \<open>
  C4. Whenever \<^verbatim>\<open>mine\<close> returns at difficulty \<open>d\<close>, \<open>d\<close> is not negative and the hash of the
  block begins with \<open>d\<close> characters \<open>0\<close>; and whenever \<^verbatim>\<open>AddTransaction\<close> returns, it has appended
  one block, whose stored hash begins with as many characters \<open>0\<close> as the difficulty of the
  ledger.
\<close>

theorem mine_leading_zeros:
  "(mine d b = Some (Inr b') \<longrightarrow>
      0 \<le> d \<and> HasPrefix (hash b') (replicate (nat d) CHR ''0'')) \<and>
   (AddTransaction x now bc = Some (Inr bc') \<longrightarrow>
      length (chain bc') = length (chain bc) + 1 \<and>
      take (length (chain bc)) (chain bc') = chain bc \<and>
      HasPrefix (hash (chain bc' ! length (chain bc)))
        (replicate (nat (difficulty bc)) CHR ''0''))"
proof (intro conjI impI)
  assume "mine d b = Some (Inr b')"
  from mine_Inr [OF this]
  show "0 \<le> d" "HasPrefix (hash b') (replicate (nat d) CHR ''0'')" by simp_all
next
  assume "AddTransaction x now bc = Some (Inr bc')"
  from AddTransaction_Some [OF this] obtain m where
    m: "bc' = bc\<lparr>chain := chain bc @ [m]\<rparr>"
       "mine (difficulty bc) (newBlock x now bc) = Some (Inr m)"
    by blast
  from m(1) show "length (chain bc') = length (chain bc) + 1"
    "take (length (chain bc)) (chain bc') = chain bc"
    by simp_all
  from mine_Inr [OF m(2)] m(1)
  show "HasPrefix (hash (chain bc' ! length (chain bc)))
          (replicate (nat (difficulty bc)) CHR ''0'')"
    by simp
qed

theorem mine_leading_zeros_witness:
  "mine 1 fresh_Alice = Some (Inr mined_Alice) \<and>
   HasPrefix (hash mined_Alice) ''0'' \<and>
   AddTransaction Alice_pays_Bob Alice_time (CreateBlockchain 1 genesis_time) =
     Some (Inr (CreateBlockchain 1 genesis_time
       \<lparr>chain := [genesisBlock (CreateBlockchain 1 genesis_time), mined_Alice]\<rparr>)) \<and>
   HasPrefix
     (hash ([genesisBlock (CreateBlockchain 1 genesis_time), mined_Alice] ! 1)) ''0''"
proof -
  let ?g = "CreateBlockchain 1 genesis_time"
  let ?b = "?g\<lparr>chain := [genesisBlock ?g, mined_Alice]\<rparr>"
  have new: "newBlock Alice_pays_Bob Alice_time ?g = fresh_Alice"
    by (simp add: newBlock_def CreateBlockchain_def Let_def fresh_Alice_def)
  have "mine (difficulty ?g) (newBlock Alice_pays_Bob Alice_time ?g) = Some (Inr mined_Alice)"
    by (simp only: new CreateBlockchain_difficulty mine_fresh_Alice)
  moreover have "chain ?g \<noteq> []" by (simp add: CreateBlockchain_chain)
  ultimately have add: "AddTransaction Alice_pays_Bob Alice_time ?g = Some (Inr ?b)"
    by (simp add: AddTransaction_newBlock CreateBlockchain_chain)
  from mine_leading_zeros [of 1 fresh_Alice mined_Alice Alice_pays_Bob Alice_time ?g ?b]
    mine_fresh_Alice add
  have "HasPrefix (hash mined_Alice) (replicate (nat 1) CHR ''0'')"
    "HasPrefix (hash (chain ?b ! length (chain ?g))) (replicate (nat (difficulty ?g)) CHR ''0'')"
    by blast+
  then have "HasPrefix (hash mined_Alice) ''0''"
    "HasPrefix (hash ([genesisBlock ?g, mined_Alice] ! 1)) ''0''"
    by (simp_all add: CreateBlockchain_def Let_def)
  with mine_fresh_Alice add show ?thesis by simp
qed

text \<open>
  C5. For every difficulty, \<^verbatim>\<open>IsValid\<close> returns true on the ledger that \<^verbatim>\<open>CreateBlockchain\<close>
  returns, which holds the genesis block only.
\<close>

theorem IsValid_CreateBlockchain: "IsValid (CreateBlockchain d now) = Inr True"
  by (simp add: IsValid_def CreateBlockchain_def Let_def)

theorem IsValid_CreateBlockchain_witness: "IsValid (CreateBlockchain 2 genesis_time) = Inr True"
  using IsValid_CreateBlockchain [of 2 genesis_time] .

text \<open>
  C7. For every difficulty \<open>d\<close>, the genesis block of \<^verbatim>\<open>CreateBlockchain(d)\<close> has the hash \<open>0\<close>,
  no payload (the nil map), the time of construction as its timestamp, an empty previous hash
  and the proof 0; the block sequence holds exactly this block, at index 0; and the
  difficulty of the ledger is \<open>d\<close>.
\<close>

theorem CreateBlockchain_fields:
  "hash (genesisBlock (CreateBlockchain d now)) = ''0'' \<and>
   data (genesisBlock (CreateBlockchain d now)) = None \<and>
   timestamp (genesisBlock (CreateBlockchain d now)) = now \<and>
   previousHash (genesisBlock (CreateBlockchain d now)) = [] \<and>
   pow (genesisBlock (CreateBlockchain d now)) = 0 \<and>
   chain (CreateBlockchain d now) = [genesisBlock (CreateBlockchain d now)] \<and>
   length (chain (CreateBlockchain d now)) = 1 \<and>
   chain (CreateBlockchain d now) ! 0 = genesisBlock (CreateBlockchain d now) \<and>
   difficulty (CreateBlockchain d now) = d"
  by (simp add: CreateBlockchain_def Let_def)

theorem CreateBlockchain_fields_witness:
  "CreateBlockchain 2 genesis_time =
     \<lparr>genesisBlock = \<lparr>data = None, hash = ''0'', previousHash = [],
                       timestamp = genesis_time, pow = 0\<rparr>,
      chain = [\<lparr>data = None, hash = ''0'', previousHash = [],
                timestamp = genesis_time, pow = 0\<rparr>],
      difficulty = 2\<rparr>"
  using CreateBlockchain_fields [of 2 genesis_time]
  by (cases "CreateBlockchain 2 genesis_time";
      cases "genesisBlock (CreateBlockchain 2 genesis_time)") simp




text \<open>
  C9. On a ledger of negative difficulty \<^verbatim>\<open>mine\<close> panics in \<^verbatim>\<open>strings.Repeat\<close> at the first test
  of the loop condition, before the loop body has run, and so every call of \<^verbatim>\<open>AddTransaction\<close>
  panics and appends nothing: on the ledger that \<^verbatim>\<open>CreateBlockchain\<close> returns, and on any ledger
  of that difficulty with a non-empty block sequence.
\<close>

theorem negative_difficulty_panics:
  assumes "d < 0"
  shows "mine d b = Some (Inl Negative_Repeat_count) \<and>
         AddTransaction x now (CreateBlockchain d t0) = Some (Inl Negative_Repeat_count) \<and>
         (chain bc \<noteq> [] \<and> difficulty bc = d \<longrightarrow>
            AddTransaction x now bc = Some (Inl Negative_Repeat_count))"
  using assms
  by (simp add: mine_negative AddTransaction_newBlock CreateBlockchain_chain
      CreateBlockchain_difficulty)

theorem negative_difficulty_panics_witness:
  "(-1::int) < 0 \<and>
   mine (-1) fresh_Alice = Some (Inl Negative_Repeat_count) \<and>
   AddTransaction Alice_pays_Bob Alice_time (CreateBlockchain (-1) genesis_time) =
     Some (Inl Negative_Repeat_count)"
  using negative_difficulty_panics [of "-1" fresh_Alice Alice_pays_Bob Alice_time genesis_time]
  by simp

text \<open>
  C10. On a ledger created with difficulty 0 every sequence of \<^verbatim>\<open>AddTransaction\<close> calls returns;
  each call appends one block, and every appended block has the empty hash and the proof 0.
  When at least one block has been appended, \<^verbatim>\<open>IsValid\<close> returns false.
\<close>

theorem difficulty_0_ledger:
  "\<exists>b. AddTransactions txs (CreateBlockchain 0 t0) = Some (Inr b) \<and>
        length (chain b) = 1 + length txs \<and>
        (\<forall>i. 0 < i \<and> i < length (chain b) \<longrightarrow>
           hash (chain b ! i) = [] \<and> pow (chain b ! i) = 0) \<and>
        (txs \<noteq> [] \<longrightarrow> IsValid b = Inr False)"
proof -
  let ?g = "CreateBlockchain 0 t0"
  have g: "difficulty ?g = 0" "chain ?g \<noteq> []" "length (chain ?g) = 1"
    by (simp_all add: CreateBlockchain_chain CreateBlockchain_difficulty)
  from AddTransactions_difficulty_0 [OF g(1,2), of txs] obtain news where
    news: "AddTransactions txs ?g = Some (Inr (?g\<lparr>chain := chain ?g @ news\<rparr>))"
          "length news = length txs" "\<forall>m\<in>set news. hash m = [] \<and> pow m = 0"
    by blast
  let ?b = "?g\<lparr>chain := chain ?g @ news\<rparr>"
  have len: "length (chain ?b) = 1 + length txs" using g(3) news(2) by simp
  have new: "hash (chain ?b ! i) = [] \<and> pow (chain ?b ! i) = 0"
    if "0 < i" "i < length (chain ?b)" for i
  proof -
    from that g(3) have "chain ?b ! i = news ! (i - 1)" "i - 1 < length news"
      by (simp_all add: nth_append)
    with news(3) show ?thesis by (metis nth_mem)
  qed
  have "IsValid ?b = Inr False" if "txs \<noteq> []"
  proof -
    from that len have "0 + 1 < length (chain ?b)" by (cases txs) simp_all
    moreover from this new [of 1] have "hash (chain ?b ! (0 + 1)) = []" by simp
    then have "\<not> pair_passes (chain ?b) 0"
      using calculateHash_not_empty [of "chain ?b ! (0 + 1)"] by (simp add: pair_passes_def)
    moreover have "chain ?b \<noteq> []" using g(2) by simp
    ultimately show ?thesis using IsValid_nonempty [of ?b] by auto
  qed
  with news(1) len new show ?thesis by blast
qed

theorem difficulty_0_ledger_witness:
  "AddTransactions [(Alice_pays_Bob, Alice_time), (John_pays_Bob, John_time)]
     (CreateBlockchain 0 genesis_time) =
     Some (Inr (CreateBlockchain 0 genesis_time
       \<lparr>chain := [genesisBlock (CreateBlockchain 0 genesis_time), fresh_Alice, fresh_John]\<rparr>)) \<and>
   [(Alice_pays_Bob, Alice_time), (John_pays_Bob, John_time)] \<noteq> [] \<and>
   IsValid (CreateBlockchain 0 genesis_time
       \<lparr>chain := [genesisBlock (CreateBlockchain 0 genesis_time), fresh_Alice, fresh_John]\<rparr>)
     = Inr False"
proof -
  let ?g = "CreateBlockchain 0 genesis_time"
  let ?txs = "[(Alice_pays_Bob, Alice_time), (John_pays_Bob, John_time)]"
  let ?b = "?g\<lparr>chain := [genesisBlock ?g, fresh_Alice, fresh_John]\<rparr>"
  have run: "AddTransactions ?txs ?g = Some (Inr ?b)"
    by (simp add: AddTransaction_def mine_zero newBlock_def fresh_Alice_def fresh_John_def
        CreateBlockchain_def Let_def)
  from difficulty_0_ledger [of ?txs genesis_time] obtain b where
    "AddTransactions ?txs ?g = Some (Inr b)" "IsValid b = Inr False"
    by auto
  with run show ?thesis by simp
qed

end
